theory Spec2Isabelle
  imports Complex_Main "HOL-Library.AList"
begin

section \<open>Python values, requests and responses\<close>

text \<open>
  The values that \<open>response.json()\<close> can produce, which are also the values stored in a
  query-parameter dictionary. A dictionary is an association list in insertion order with
  string keys. Numbers are kept exact; only their being zero or not is ever looked at.
\<close>

datatype pyval =
    PNone
  | PBool bool
  | PNum rat
  | PStr string
  | PList "pyval list"
  | PDict "(string \<times> pyval) list"

type_synonym dict = "(string \<times> pyval) list"

text \<open>What \<open>session.get(url, params=params, timeout=timeout)\<close> is called with.\<close>

record request =
  url :: pyval
  params :: "dict option"
  timeout :: "rat \<times> rat"

text \<open>
  A \<open>requests.Response\<close>: its \<open>status_code\<close>, and what \<open>json()\<close> gives, \<open>None\<close> when the
  body is not JSON (then \<open>json()\<close> raises).
\<close>

record response =
  status_code :: int
  json_body :: "pyval option"

text \<open>The three exception classes that the handler of \<open>fetcher\<close> catches.\<close>

datatype transport_exc = ConnectionError | Timeout | ReadTimeout

text \<open>
  One call of \<open>session.get\<close> either returns a response, raises one of the caught
  exceptions, or raises another exception (an invalid URL, too many redirects), which the
  handler does not catch.
\<close>

datatype outcome =
    Received response
  | TransportFailure transport_exc
  | Uncaught string

text \<open>The exceptions that leave \<open>fetcher\<close>, \<open>fetch_page\<close> and \<open>iter_pages\<close>.\<close>

datatype error =
    TransportError transport_exc
  | RequestException string
  | HTTPError int
  | UnboundLocalError
  | ValueError
  | JSONDecodeError
  | TypeError
  | KeyError string

text \<open>
  What the program does to the world, in order: a GET, a \<open>sleep\<close>, the \<open>print\<close> of the
  handler, and a batch handed to the consumer of the generator.
\<close>

datatype event =
    Get request
  | Sleep rat
  | Print transport_exc
  | Yield pyval

text \<open>
  The state: the dictionaries that exist, by address, and the events so far. A Python
  reference to a dictionary is an address below the length of the heap.
\<close>

record state =
  heap :: "dict list"
  trace :: "event list"

text \<open>
  The session and the server behind it: the outcome of a GET is any function of everything
  that happened before and of the request.
\<close>

type_synonym net = "event list \<Rightarrow> request \<Rightarrow> outcome"

fun is_Get :: "event \<Rightarrow> bool" where
  "is_Get (Get r) = True"
| "is_Get e = False"

fun is_Yield :: "event \<Rightarrow> bool" where
  "is_Yield (Yield v) = True"
| "is_Yield e = False"

definition gets :: "event list \<Rightarrow> nat" where
  "gets tr = length (filter is_Get tr)"

definition yields :: "event list \<Rightarrow> nat" where
  "yields tr = length (filter is_Yield tr)"

fun slept :: "event \<Rightarrow> rat" where
  "slept (Sleep d) = d"
| "slept e = 0"

definition total_sleep :: "event list \<Rightarrow> rat" where
  "total_sleep tr = sum_list (map slept tr)"

section \<open>fetcher\<close>

definition RETRY_CODES :: "int set" where
  "RETRY_CODES = {429, 504, 503, 502, 501}"

definition session_get :: "net \<Rightarrow> pyval \<Rightarrow> nat option \<Rightarrow> rat \<times> rat \<Rightarrow> state \<Rightarrow> outcome \<times> state" where
  "session_get net u p tmo st =
     (let req = \<lparr>url = u, params = map_option (\<lambda>a. heap st ! a) p, timeout = tmo\<rparr>
      in (net (trace st) req, st\<lparr>trace := trace st @ [Get req]\<rparr>))"

text \<open>\<open>time.sleep\<close> raises \<open>ValueError\<close> on a negative length.\<close>

definition sleep :: "rat \<Rightarrow> state \<Rightarrow> (error + unit) \<times> state" where
  "sleep d st =
     (if d < 0 then (Inl ValueError, st)
      else (Inr (), st\<lparr>trace := trace st @ [Sleep d]\<rparr>))"

text \<open>\<open>Response.raise_for_status\<close> raises for the client and server error ranges.\<close>

definition raise_for_status :: "response \<Rightarrow> error option" where
  "raise_for_status r =
     (if 400 \<le> status_code r \<and> status_code r < 600 then Some (HTTPError (status_code r))
      else None)"

text \<open>
  The \<open>for attempt in range(1, tries + 1)\<close> loop, over the attempts still to make. The
  variable \<open>response\<close> is \<open>None\<close> while it is unbound. Everything after the GET is inside the
  \<open>except\<close> block, as the source indents it: the status of \<open>response\<close> is read only after a
  caught exception, and a GET that returns leaves the body of the loop at once. A bare
  \<open>raise\<close> in the handler raises the caught exception again. The float \<open>backoff\<close> is
  an exact rational here: doubling a float is exact as long as it does not overflow.
\<close>

fun fetch_loop ::
  "net \<Rightarrow> pyval \<Rightarrow> nat option \<Rightarrow> rat \<times> rat \<Rightarrow> int \<Rightarrow> int list \<Rightarrow> rat \<Rightarrow> response option \<Rightarrow> state
     \<Rightarrow> (error + response option) \<times> state" where
  "fetch_loop net u p tmo tries [] backoff resp st = (Inr resp, st)"
| "fetch_loop net u p tmo tries (attempt # rest) backoff resp st =
     (case session_get net u p tmo st of
        (Received r, st1) \<Rightarrow> fetch_loop net u p tmo tries rest backoff (Some r) st1
      | (Uncaught m, st1) \<Rightarrow> (Inl (RequestException m), st1)
      | (TransportFailure e, st1) \<Rightarrow>
          (let st2 = st1\<lparr>trace := trace st1 @ [Print e]\<rparr> in
           if attempt = tries then (Inl (TransportError e), st2)
           else
             (case sleep backoff st2 of
                (Inl x, st3) \<Rightarrow> (Inl x, st3)
              | (Inr _, st3) \<Rightarrow>
                  (let backoff1 = backoff * 2 in
                   case resp of
                     None \<Rightarrow> (Inl UnboundLocalError, st3)
                   | Some r \<Rightarrow>
                       if status_code r \<in> RETRY_CODES then
                         (if attempt = tries then (Inl (TransportError e), st3)
                          else
                            (case sleep backoff1 st3 of
                               (Inl x, st4) \<Rightarrow> (Inl x, st4)
                             | (Inr _, st4) \<Rightarrow>
                                 fetch_loop net u p tmo tries rest (backoff1 * 2) resp st4))
                       else
                         (case raise_for_status r of
                            Some x \<Rightarrow> (Inl x, st3)
                          | None \<Rightarrow> fetch_loop net u p tmo tries rest backoff1 resp st3)))))"

text \<open>
  \<open>fetcher(session, url, params, timeout, tries, initial_backoff)\<close>: the loop, then
  \<open>return response.json()\<close>, which fails when \<open>response\<close> was never bound or the body is
  not JSON.
\<close>

definition fetcher ::
  "net \<Rightarrow> pyval \<Rightarrow> nat option \<Rightarrow> rat \<times> rat \<Rightarrow> int \<Rightarrow> rat \<Rightarrow> state \<Rightarrow> (error + pyval) \<times> state" where
  "fetcher net u p tmo tries initial_backoff st =
     (case fetch_loop net u p tmo tries [1..tries] initial_backoff None st of
        (Inl x, st1) \<Rightarrow> (Inl x, st1)
      | (Inr None, st1) \<Rightarrow> (Inl UnboundLocalError, st1)
      | (Inr (Some r), st1) \<Rightarrow>
          (case json_body r of
             None \<Rightarrow> (Inl JSONDecodeError, st1)
           | Some d \<Rightarrow> (Inr d, st1)))"

text \<open>The defaults of \<open>fetcher\<close>: \<open>timeout=(3.05, 10.0)\<close>, \<open>tries=3\<close>, \<open>initial_backoff=0.5\<close>.\<close>

definition default_timeout :: "rat \<times> rat" where
  "default_timeout = (305 / 100, 10)"

definition default_tries :: int where
  "default_tries = 3"

definition default_backoff :: rat where
  "default_backoff = 1 / 2"

section \<open>Reading a page\<close>

text \<open>Truth value of a Python object, as \<open>if not items\<close> takes it.\<close>

fun truthy :: "pyval \<Rightarrow> bool" where
  "truthy PNone = False"
| "truthy (PBool b) = b"
| "truthy (PNum n) = (n \<noteq> 0)"
| "truthy (PStr s) = (s \<noteq> [])"
| "truthy (PList xs) = (xs \<noteq> [])"
| "truthy (PDict kvs) = (kvs \<noteq> [])"

fun substring_of :: "string \<Rightarrow> string \<Rightarrow> bool" where
  "substring_of k [] = (k = [])"
| "substring_of k (c # cs) = (take (length k) (c # cs) = k \<or> substring_of k cs)"

text \<open>
  \<open>k in data\<close> for a string \<open>k\<close>: a key of a dictionary, an element of a list, a
  substring of a string; the other values are not iterable.
\<close>

fun contains :: "string \<Rightarrow> pyval \<Rightarrow> error + bool" where
  "contains k (PDict kvs) = Inr (k \<in> set (map fst kvs))"
| "contains k (PList xs) = Inr (PStr k \<in> set xs)"
| "contains k (PStr s) = Inr (substring_of k s)"
| "contains k v = Inl TypeError"

text \<open>
  \<open>data[k]\<close> for a string \<open>k\<close>: the value of a dictionary, \<open>KeyError\<close> when the key is
  missing; a list or a string takes integer indices only, and the other values take none.
\<close>

fun subscript :: "pyval \<Rightarrow> string \<Rightarrow> error + pyval" where
  "subscript (PDict kvs) k = (case map_of kvs k of None \<Rightarrow> Inl (KeyError k) | Some v \<Rightarrow> Inr v)"
| "subscript v k = Inl TypeError"

text \<open>
  \<open>raise\<close> of a string: Python 3 accepts only exceptions there and raises \<open>TypeError\<close>
  in place of the string, whose text is lost.
\<close>

definition raise_str :: "string \<Rightarrow> error" where
  "raise_str msg = TypeError"

text \<open>
  Lines 125 to 129 of \<open>fetch_page\<close>, which \<open>iter_pages\<close> repeats as lines 162 to 166: the
  check for the two keys, then \<open>items = data['results']\<close> and
  \<open>next_url = data['info']['next']\<close>.
\<close>

definition read_page :: "pyval \<Rightarrow> error + pyval \<times> pyval" where
  "read_page data =
     (case contains ''info'' data of
        Inl x \<Rightarrow> Inl x
      | Inr has_info \<Rightarrow>
          if \<not> has_info then Inl (raise_str ''Missing expected keys in response'')
          else
            (case contains ''results'' data of
               Inl x \<Rightarrow> Inl x
             | Inr has_results \<Rightarrow>
                 if \<not> has_results then Inl (raise_str ''Missing expected keys in response'')
                 else
                   (case subscript data ''results'' of
                      Inl x \<Rightarrow> Inl x
                    | Inr items \<Rightarrow>
                        (case subscript data ''info'' of
                           Inl x \<Rightarrow> Inl x
                         | Inr info \<Rightarrow>
                             (case subscript info ''next'' of
                                Inl x \<Rightarrow> Inl x
                              | Inr next_url \<Rightarrow> Inr (items, next_url))))))"

section \<open>fetch_page\<close>

definition lstrip :: "char \<Rightarrow> string \<Rightarrow> string" where
  "lstrip c s = dropWhile (\<lambda>x. x = c) s"

definition rstrip :: "char \<Rightarrow> string \<Rightarrow> string" where
  "rstrip c s = rev (dropWhile (\<lambda>x. x = c) (rev s))"

text \<open>A new dictionary object: a new address, after those in use.\<close>

definition alloc :: "dict \<Rightarrow> state \<Rightarrow> nat \<times> state" where
  "alloc d st = (length (heap st), st\<lparr>heap := heap st @ [d]\<rparr>)"

text \<open>
  \<open>fetch_page(session, base_url, path, page_number, base_params)\<close>. The library function
  \<open>urljoin\<close> is a parameter. \<open>base_params\<close> is \<open>None\<close> or the address of a dictionary;
  \<open>dict(base_params or {})\<close> makes a new dictionary with the entries of \<open>base_params\<close>, none
  when it is \<open>None\<close> or empty, and \<open>params['page'] = page_number\<close> writes to that new
  object. \<open>fetcher\<close> is called with its defaults.
\<close>

definition fetch_page ::
  "net \<Rightarrow> (string \<Rightarrow> string \<Rightarrow> string) \<Rightarrow> string \<Rightarrow> string \<Rightarrow> int \<Rightarrow> nat option \<Rightarrow> state
     \<Rightarrow> (error + pyval \<times> pyval) \<times> state" where
  "fetch_page net urljoin base_url path page_number base_params st =
     (let u = urljoin (rstrip CHR ''/'' base_url @ ''/'') (lstrip CHR ''/'' path);
          (p, st1) = alloc (case base_params of None \<Rightarrow> [] | Some a \<Rightarrow> heap st ! a) st;
          st2 = st1\<lparr>heap := (heap st1)
                  [p := AList.update ''page'' (PNum (of_int page_number)) (heap st1 ! p)]\<rparr>
      in case fetcher net (PStr u) (Some p) default_timeout default_tries default_backoff st2 of
           (Inl x, st3) \<Rightarrow> (Inl x, st3)
         | (Inr data, st3) \<Rightarrow>
             (case read_page data of
                Inl x \<Rightarrow> (Inl x, st3)
              | Inr page \<Rightarrow> (Inr page, st3)))"

section \<open>iter_pages\<close>

text \<open>
  The \<open>while True\<close> loop of the generator, run by a consumer that takes every batch. It
  may run forever, and then has no result. The result is \<open>Inr ()\<close> when the generator
  ends and \<open>Inl\<close> the exception when it raises.
\<close>

partial_function (option) iter_loop ::
  "net \<Rightarrow> pyval \<Rightarrow> pyval \<Rightarrow> int \<Rightarrow> int option \<Rightarrow> state \<Rightarrow> ((error + unit) \<times> state) option" where
  "iter_loop net items next_url pages_fetched max_pages st =
     (if \<not> truthy items then Some (Inr (), st)
      else
        (let st1 = st\<lparr>trace := trace st @ [Yield items]\<rparr>;
             pages_fetched1 = pages_fetched + 1
         in if (case max_pages of None \<Rightarrow> False | Some m \<Rightarrow> pages_fetched1 \<ge> m)
            then Some (Inr (), st1)
            else if next_url = PNone then Some (Inr (), st1)
            else
              (case fetcher net next_url None default_timeout default_tries default_backoff st1 of
                 (Inl x, st2) \<Rightarrow> Some (Inl x, st2)
               | (Inr data, st2) \<Rightarrow>
                   (case read_page data of
                      Inl x \<Rightarrow> Some (Inl x, st2)
                    | Inr (items1, next_url1) \<Rightarrow>
                        iter_loop net items1 next_url1 pages_fetched1 max_pages st2))))"

declare iter_loop.simps [code]

text \<open>
  \<open>iter_pages(session, base_url, path, base_params, start_page, max_pages)\<close>;
  \<open>max_pages\<close> is \<open>None\<close> when the caller leaves it out.
\<close>

definition iter_pages ::
  "net \<Rightarrow> (string \<Rightarrow> string \<Rightarrow> string) \<Rightarrow> string \<Rightarrow> string \<Rightarrow> nat option \<Rightarrow> int \<Rightarrow> int option \<Rightarrow> state
     \<Rightarrow> ((error + unit) \<times> state) option" where
  "iter_pages net urljoin base_url path base_params start_page max_pages st =
     (case fetch_page net urljoin base_url path start_page base_params st of
        (Inl x, st1) \<Rightarrow> Some (Inl x, st1)
      | (Inr (items, next_url), st1) \<Rightarrow> iter_loop net items next_url 0 max_pages st1)"

section \<open>The command line\<close>

text \<open>The options of \<open>parse_cli\<close> that the \<open>--all\<close> branch of \<open>main\<close> reads.\<close>

record args =
  arg_base_url :: string
  arg_path :: string
  arg_page :: int
  arg_all :: bool
  arg_max_pages :: int

text \<open>
  What \<open>parse_cli\<close> returns for \<open>fetch --base-url b --path p --all\<close>: \<open>--page\<close> defaults
  to 1 and \<open>--max-pages\<close> to 10.
\<close>

definition parse_cli_all :: "string \<Rightarrow> string \<Rightarrow> args" where
  "parse_cli_all b p =
     \<lparr>arg_base_url = b, arg_path = p, arg_page = 1, arg_all = True, arg_max_pages = 10\<rparr>"

text \<open>
  The iteration that \<open>main\<close> starts when \<open>args.all\<close> holds, with \<open>base_params = None\<close>,
  taken to its end. The body of the \<open>for\<close> loop of \<open>main\<close> counts the batch with \<open>len\<close>
  and prints; it sends nothing, and where \<open>len\<close> raises (items that are no list)
  \<open>main\<close> ends earlier, with fewer batches.
\<close>

definition main_pages ::
  "net \<Rightarrow> (string \<Rightarrow> string \<Rightarrow> string) \<Rightarrow> args \<Rightarrow> state \<Rightarrow> ((error + unit) \<times> state) option" where
  "main_pages net urljoin a st =
     iter_pages net urljoin (arg_base_url a) (arg_path a) None (arg_page a)
       (Some (arg_max_pages a)) st"

section \<open>Observing a run\<close>

text \<open>The events that a run from \<open>st\<close> to \<open>st'\<close> added.\<close>

definition new_events :: "state \<Rightarrow> state \<Rightarrow> event list" where
  "new_events st st' = drop (length (trace st)) (trace st')"

text \<open>
  A run that only talks to the network: it leaves every dictionary as it was, adds events
  after those already there, makes at most \<open>n\<close> GETs and yields nothing.
\<close>

definition quiet :: "nat \<Rightarrow> state \<Rightarrow> state \<Rightarrow> bool" where
  "quiet n st st' \<longleftrightarrow>
     heap st' = heap st \<and> take (length (trace st)) (trace st') = trace st \<and>
     gets (new_events st st') \<le> n \<and> yields (new_events st st') = 0"

text \<open>
  The dictionary that \<open>fetch_page\<close> sends: the entries of \<open>base_params\<close> with the
  key \<open>page\<close> set.
\<close>

definition page_params :: "state \<Rightarrow> nat option \<Rightarrow> int \<Rightarrow> dict" where
  "page_params st base_params page_number =
     AList.update ''page'' (PNum (of_int page_number))
       (case base_params of None \<Rightarrow> [] | Some a \<Rightarrow> heap st ! a)"

section \<open>Inputs used in the examples below\<close>

definition start :: state where
  "start = \<lparr>heap = [], trace = []\<rparr>"

definition respond :: "int \<Rightarrow> pyval \<Rightarrow> outcome" where
  "respond code d = Received \<lparr>status_code = code, json_body = Some d\<rparr>"

text \<open>A server that answers the GETs in order from a list, and then always the same.\<close>

definition scripted :: "outcome list \<Rightarrow> outcome \<Rightarrow> net" where
  "scripted outs dflt = (\<lambda>tr req. if gets tr < length outs then outs ! gets tr else dflt)"

definition page_one :: pyval where
  "page_one = PDict [(''info'', PDict [(''next'', PStr ''https://h/api/location?page=2'')]),
                     (''results'', PList [PStr ''a'', PStr ''b''])]"

definition page_empty :: pyval where
  "page_empty = PDict [(''info'', PDict [(''next'', PStr ''https://h/api/location?page=2'')]),
                       (''results'', PList [])]"

definition not_found :: pyval where
  "not_found = PDict [(''error'', PStr ''There is nothing here'')]"

definition the_url :: pyval where
  "the_url = PStr ''https://h/api/location''"

definition next_url_2 :: pyval where
  "next_url_2 = PStr ''https://h/api/location?page=2''"

definition get_url :: event where
  "get_url = Get \<lparr>url = the_url, params = None, timeout = default_timeout\<rparr>"

definition get_next :: event where
  "get_next = Get \<lparr>url = next_url_2, params = None, timeout = default_timeout\<rparr>"

definition get_page :: "int \<Rightarrow> event" where
  "get_page n = Get \<lparr>url = the_url, params = Some [(''page'', PNum (of_int n))],
                     timeout = default_timeout\<rparr>"

text \<open>\<open>urljoin\<close> where the base ends in a slash and the path is relative.\<close>

definition join :: "string \<Rightarrow> string \<Rightarrow> string" where
  "join b p = b @ p"

definition base :: string where
  "base = ''https://h/api/''"

definition location :: string where
  "location = ''/location''"

text \<open>A caller's dictionary that already has a \<open>page\<close> entry.\<close>

definition rick :: dict where
  "rick = [(''name'', PStr ''rick''), (''page'', PNum 7)]"

section \<open>Lemmas on traces\<close>

lemma gets_Nil: "gets [] = 0"
  by (simp add: gets_def)

lemma gets_append: "gets (xs @ ys) = gets xs + gets ys"
  by (simp add: gets_def)

lemma gets_Cons_Get: "gets (Get r # xs) = Suc (gets xs)"
  by (simp add: gets_def)

lemma yields_Nil: "yields [] = 0"
  by (simp add: yields_def)

lemma yields_append: "yields (xs @ ys) = yields xs + yields ys"
  by (simp add: yields_def)

lemma new_events_append: "trace st' = trace st @ evs \<Longrightarrow> new_events st st' = evs"
  by (simp add: new_events_def)

lemma quiet_iff:
  "quiet n st st' \<longleftrightarrow>
     heap st' = heap st \<and> (\<exists>evs. trace st' = trace st @ evs \<and> gets evs \<le> n \<and> yields evs = 0)"
proof
  assume q: "quiet n st st'"
  then have "trace st' = trace st @ new_events st st'"
    unfolding quiet_def new_events_def by (metis append_take_drop_id)
  with q show "heap st' = heap st \<and> (\<exists>evs. trace st' = trace st @ evs \<and> gets evs \<le> n \<and> yields evs = 0)"
    unfolding quiet_def by blast
next
  assume "heap st' = heap st \<and> (\<exists>evs. trace st' = trace st @ evs \<and> gets evs \<le> n \<and> yields evs = 0)"
  then show "quiet n st st'"
    by (auto simp: quiet_def new_events_def)
qed

lemma quiet_refl: "quiet 0 st st"
  by (simp add: quiet_iff gets_def yields_def)

lemma quiet_trans: "quiet m st st1 \<Longrightarrow> quiet n st1 st2 \<Longrightarrow> quiet (m + n) st st2"
  by (auto simp: quiet_iff gets_append yields_append)

lemma quiet_mono: "quiet m st st1 \<Longrightarrow> m \<le> n \<Longrightarrow> quiet n st st1"
  by (auto simp: quiet_iff)

lemma split_first_get:
  assumes "Get r0 # ys = pre @ Get req # post"
  shows "(pre = [] \<and> req = r0 \<and> post = ys) \<or>
         (\<exists>pre'. pre = Get r0 # pre' \<and> ys = pre' @ Get req # post)"
  using assms by (cases pre) auto

lemma split_no_get:
  assumes "xs @ ys = pre @ Get req # post" and "gets xs = 0"
  shows "\<exists>pre'. pre = xs @ pre' \<and> ys = pre' @ Get req # post"
  using assms
proof (induction xs arbitrary: pre)
  case Nil
  then show ?case by simp
next
  case (Cons x xs)
  show ?case
  proof (cases pre)
    case Nil
    with Cons.prems show ?thesis by (simp add: gets_def)
  next
    case (Cons y pre1)
    with Cons.prems have "xs @ ys = pre1 @ Get req # post" "gets xs = 0" "y = x"
      by (auto simp: gets_def split: if_splits)
    with Cons.IH [of pre1] Cons show ?thesis by auto
  qed
qed

section \<open>Lemmas on fetcher\<close>

lemma session_get_quiet: "quiet 1 st (snd (session_get net u p tmo st))"
  by (simp add: session_get_def Let_def quiet_iff gets_def yields_def)

lemma print_quiet: "quiet 0 st (st\<lparr>trace := trace st @ [Print e]\<rparr>)"
  by (simp add: quiet_iff gets_def yields_def)

lemma sleep_quiet: "quiet 0 st (snd (sleep d st))"
  by (simp add: sleep_def quiet_iff gets_def yields_def)

lemma fetch_loop_quiet:
  "quiet (length as) st (snd (fetch_loop net u p tmo tries as b resp st))"
proof (induction as arbitrary: b resp st)
  case Nil
  show ?case by (simp add: quiet_refl)
next
  case (Cons a as)
  obtain out st1 where g: "session_get net u p tmo st = (out, st1)" by force
  have q1: "quiet 1 st st1" using session_get_quiet [of st net u p tmo] g by simp
  have step: "\<And>n s. quiet n st1 s \<Longrightarrow> n \<le> length as \<Longrightarrow> quiet (length (a # as)) st s"
    using quiet_mono [OF quiet_trans [OF q1]] by simp
  show ?case
  proof (cases out)
    case (Received r0)
    with g have eq: "fetch_loop net u p tmo tries (a # as) b resp st
                  = fetch_loop net u p tmo tries as b (Some r0) st1" by simp
    show ?thesis by (subst eq) (rule step [OF Cons.IH], simp)
  next
    case (Uncaught m)
    with g have eq: "snd (fetch_loop net u p tmo tries (a # as) b resp st) = st1" by simp
    show ?thesis by (subst eq) (rule step [OF quiet_refl], simp)
  next
    case (TransportFailure e)
    define st2 where "st2 = st1\<lparr>trace := trace st1 @ [Print e]\<rparr>"
    have q2: "quiet 0 st1 st2" unfolding st2_def by (rule print_quiet)
    obtain r3 st3 where s3: "sleep b st2 = (r3, st3)" by force
    have q3: "quiet 0 st1 st3" using quiet_trans [OF q2 sleep_quiet [of st2 b]] s3 by simp
    obtain r4 st4 where s4: "sleep (b * 2) st3 = (r4, st4)" by force
    have q4: "quiet 0 st1 st4" using quiet_trans [OF q3 sleep_quiet [of st3 "b * 2"]] s4 by simp
    have i3: "\<And>b' resp'. quiet (length (a # as)) st (snd (fetch_loop net u p tmo tries as b' resp' st3))"
      using step [OF quiet_trans [OF q3 Cons.IH]] by simp
    have i4: "\<And>b' resp'. quiet (length (a # as)) st (snd (fetch_loop net u p tmo tries as b' resp' st4))"
      using step [OF quiet_trans [OF q4 Cons.IH]] by simp
    have e2: "quiet (length (a # as)) st st2" using step [OF q2] by simp
    have e3: "quiet (length (a # as)) st st3" using step [OF q3] by simp
    have e4: "quiet (length (a # as)) st st4" using step [OF q4] by simp
    show ?thesis
      using g TransportFailure s3 s4 i3 i4 e2 e3 e4
      by (simp add: Let_def st2_def [symmetric] split: sum.splits option.splits)
  qed
qed

lemma fetch_loop_trace:
  "\<exists>evs. trace (snd (fetch_loop net u p tmo tries as b resp st)) = trace st @ evs"
  using fetch_loop_quiet [of as st net u p tmo tries b resp] by (auto simp: quiet_iff)

lemma fetcher_state:
  "snd (fetcher net u p tmo tries b st) = snd (fetch_loop net u p tmo tries [1..tries] b None st)"
  by (simp add: fetcher_def split: prod.splits sum.splits option.splits)

lemma fetcher_quiet: "quiet (nat tries) st (snd (fetcher net u p tmo tries b st))"
  using fetch_loop_quiet [of "[1..tries]" st net u p tmo tries b None]
  by (simp add: fetcher_state)

lemma fetch_loop_final:
  assumes "fetch_loop net u p tmo tries as b resp st = (r, st')"
      and "trace st' = trace st @ pre @ Get req # post"
      and "Suc (gets pre) = length as" and "gets post = 0"
      and "net (trace st @ pre) req = TransportFailure e"
      and "last as = tries" and "tries \<notin> set (butlast as)"
  shows "r = Inl (TransportError e) \<and> post = [Print e]"
  using assms
proof (induction as arbitrary: b resp st pre)
  case Nil
  then show ?case by simp
next
  case (Cons a as)
  define req0 where "req0 = \<lparr>url = u, params = map_option (\<lambda>a. heap st ! a) p, timeout = tmo\<rparr>"
  define st1 where "st1 = st\<lparr>trace := trace st @ [Get req0]\<rparr>"
  have g: "session_get net u p tmo st = (net (trace st) req0, st1)"
    by (simp add: session_get_def req0_def st1_def Let_def)
  have later: "r = Inl (TransportError e) \<and> post = [Print e]"
    if run: "fetch_loop net u p tmo tries as b' resp' s = (r, st')"
      and tr: "trace s = trace st @ Get req0 # mid" and mid: "gets mid = 0" and ne: "as \<noteq> []"
    for b' resp' s mid
  proof -
    from fetch_loop_trace [of net u p tmo tries as b' resp' s] run
    obtain evs where evs: "trace st' = trace s @ evs" by auto
    with tr Cons.prems(2) have eq: "Get req0 # (mid @ evs) = pre @ Get req # post" by simp
    from Cons.prems(3) ne have "gets pre \<noteq> 0" by simp
    with split_first_get [OF eq] obtain pre1 where
      p1: "pre = Get req0 # pre1" "mid @ evs = pre1 @ Get req # post" by (auto simp: gets_def)
    from split_no_get [OF p1(2) mid] obtain pre2 where
      p2: "pre1 = mid @ pre2" "evs = pre2 @ Get req # post" by auto
    have a: "trace st' = trace s @ pre2 @ Get req # post" using evs p2 by simp
    have b: "Suc (gets pre2) = length as"
      using Cons.prems(3) p1 p2 mid by (simp add: gets_append gets_Cons_Get)
    have c: "net (trace s @ pre2) req = TransportFailure e"
      using Cons.prems(5) tr p1 p2 by simp
    have d: "last as = tries" "tries \<notin> set (butlast as)"
      using Cons.prems(6,7) ne by auto
    from Cons.IH [OF run a b Cons.prems(4) c d] show ?thesis .
  qed
  have stopped: "False"
    if tr: "trace st' = trace st @ Get req0 # mid" and mid: "gets mid = 0" and ne: "as \<noteq> []"
    for mid
  proof -
    from tr Cons.prems(2) have eq: "Get req0 # mid = pre @ Get req # post" by simp
    from Cons.prems(3) ne have "gets pre \<noteq> 0" by simp
    with split_first_get [OF eq] obtain pre1 where
      p1: "pre = Get req0 # pre1" "mid = pre1 @ Get req # post" by (auto simp: gets_def)
    with mid show False by (simp add: gets_append gets_Cons_Get)
  qed
  show ?case
  proof (cases "as = []")
    case True
    with Cons.prems(3) have p0: "gets pre = 0" by simp
    from True Cons.prems(6) have at: "a = tries" by simp
    have only: "pre = [] \<and> req = req0 \<and> post = mid"
      if "trace st' = trace st @ Get req0 # mid" for mid
    proof -
      from that Cons.prems(2) have eq: "Get req0 # mid = pre @ Get req # post" by simp
      from split_first_get [OF eq] p0 show ?thesis by (auto simp: gets_def)
    qed
    show ?thesis
    proof (cases "net (trace st) req0")
      case (Received r0)
      with g Cons.prems(1) True have "trace st' = trace st @ Get req0 # []"
        by (auto simp: st1_def)
      from only [OF this] Cons.prems(5) Received show ?thesis by simp
    next
      case (Uncaught m)
      with g Cons.prems(1) True have "trace st' = trace st @ Get req0 # []"
        by (auto simp: st1_def)
      from only [OF this] Cons.prems(5) Uncaught show ?thesis by simp
    next
      case (TransportFailure e0)
      with g Cons.prems(1) at have r: "r = Inl (TransportError e0)"
        and "trace st' = trace st @ Get req0 # [Print e0]"
        by (auto simp: st1_def Let_def)
      from only [OF this(2)] Cons.prems(5) TransportFailure r show ?thesis by simp
    qed
  next
    case False
    then have ne: "a \<noteq> tries" using Cons.prems(7) by auto
    show ?thesis
    proof (cases "net (trace st) req0")
      case (Received r0)
      with g Cons.prems(1) have run: "fetch_loop net u p tmo tries as b (Some r0) st1 = (r, st')"
        by simp
      show ?thesis by (rule later [OF run _ _ False, of "[]"]) (simp_all add: st1_def gets_def)
    next
      case (Uncaught m)
      with g Cons.prems(1) have "trace st' = trace st @ Get req0 # []"
        by (auto simp: st1_def)
      from stopped [OF this _ False] show ?thesis by (simp add: gets_def)
    next
      case (TransportFailure e0)
      define st2 where "st2 = st1\<lparr>trace := trace st1 @ [Print e0]\<rparr>"
      define st3 where "st3 = st2\<lparr>trace := trace st2 @ [Sleep b]\<rparr>"
      define st4 where "st4 = st3\<lparr>trace := trace st3 @ [Sleep (b * 2)]\<rparr>"
      have t2: "trace st2 = trace st @ Get req0 # [Print e0]" by (simp add: st2_def st1_def)
      have t3: "trace st3 = trace st @ Get req0 # [Print e0, Sleep b]"
        by (simp add: st3_def st2_def st1_def)
      have t4: "trace st4 = trace st @ Get req0 # [Print e0, Sleep b, Sleep (b * 2)]"
        by (simp add: st4_def st3_def st2_def st1_def)
      have m2: "gets [Print e0] = 0" and m3: "gets [Print e0, Sleep b] = 0"
        and m4: "gets [Print e0, Sleep b, Sleep (b * 2)] = 0"
        by (simp_all add: gets_def)
      from g Cons.prems(1) TransportFailure ne
      consider "st' = st2" | "st' = st3" | "st' = st4"
        | b' resp' where "fetch_loop net u p tmo tries as b' resp' st3 = (r, st')"
        | b' resp' where "fetch_loop net u p tmo tries as b' resp' st4 = (r, st')"
        by (auto simp: Let_def sleep_def st2_def [symmetric] st3_def [symmetric] st4_def [symmetric]
            split: if_splits option.splits)
      then show ?thesis
      proof cases
        case 1
        with stopped [OF _ m2 False] t2 show ?thesis by simp
      next
        case 2
        with stopped [OF _ m3 False] t3 show ?thesis by simp
      next
        case 3
        with stopped [OF _ m4 False] t4 show ?thesis by simp
      next
        case 4
        from later [OF this t3 m3 False] show ?thesis .
      next
        case 5
        from later [OF this t4 m4 False] show ?thesis .
      qed
    qed
  qed
qed

lemma upto_last: "1 \<le> n \<Longrightarrow> last [1..n] = n \<and> n \<notin> set (butlast [1..n])"
  by (simp add: upto_rec2)

section \<open>Evaluating the examples\<close>

lemma upto_1_1: "[1..1] = [1::int]"
  by (simp add: upto.simps)

lemma upto_1_2: "[1..2] = [1, 2::int]"
  by (simp add: upto.simps)

lemma upto_1_3: "[1..3] = [1, 2, 3::int]"
  by (simp add: upto.simps)

lemmas run_defs = fetcher_def session_get_def sleep_def raise_for_status_def RETRY_CODES_def
  scripted_def respond_def start_def gets_def Let_def upto_1_1 upto_1_2 upto_1_3
  default_tries_def default_backoff_def get_url_def

section \<open>The claims on fetcher\<close>

text \<open>
  C1. A successful attempt should end \<open>fetcher\<close> at once, with no GET after it. The loop
  has no exit on success: \<open>return response.json()\<close> comes after the loop. With three
  tries and a server that answers every GET with status 200 and a valid page,
  \<open>fetcher\<close> issues three GETs and returns the payload only then.
\<close>

theorem fetcher_repeats_get_after_success:
  "fetcher (scripted [] (respond 200 page_one)) the_url None default_timeout 3 (1 / 2) start
     = (Inr page_one, \<lparr>heap = [], trace = [get_url, get_url, get_url]\<rparr>)"
  by (simp add: run_defs)

text \<open>
  C2. A response with status 404 should make \<open>fetcher\<close> fail at once with the HTTP error
  of that code. The call of \<open>raise_for_status\<close> is inside the \<open>except\<close> block, so a
  response that arrives is never checked: with three tries and a server that always
  answers 404, \<open>fetcher\<close> issues three GETs, raises nothing and returns the decoded body
  of the last 404 response.
\<close>

theorem fetcher_returns_body_of_404:
  "fetcher (scripted [] (respond 404 not_found)) the_url None default_timeout 3 (1 / 2) start
     = (Inr not_found, \<lparr>heap = [], trace = [get_url, get_url, get_url]\<rparr>)"
  by (simp add: run_defs)

text \<open>
  C3. With three tries and the answers 503, 503, 200, \<open>fetcher\<close> should sleep \<open>b\<close> and
  then \<open>2b\<close>. It returns the payload of the third response, but it never sleeps: the
  test of the status against \<open>RETRY_CODES\<close> is inside the \<open>except\<close> block, which no
  response reaches. With \<open>b = 1/2\<close> the time slept is 0 and not \<open>3/2\<close>.
\<close>

theorem fetcher_503_503_200_never_sleeps:
  "fetcher (scripted [respond 503 PNone, respond 503 PNone] (respond 200 page_one))
      the_url None default_timeout 3 (1 / 2) start
     = (Inr page_one, \<lparr>heap = [], trace = [get_url, get_url, get_url]\<rparr>)
   \<and> total_sleep [get_url, get_url, get_url] = 0
   \<and> (1 / 2 + 2 * (1 / 2) :: rat) \<noteq> 0"
  by (simp add: run_defs total_sleep_def)

text \<open>
  C4, as the specification states it, fails in two ways. A transport failure on the only
  allowed attempt is raised again as it is: the exception that leaves \<open>fetcher\<close> is the
  connection error itself, and the program has no exception that wraps it. A 503 on the
  only allowed attempt is no failure at all: \<open>fetcher\<close> returns the decoded body.
\<close>

theorem fetcher_final_attempt_counterexample:
  "fetcher (scripted [] (TransportFailure ConnectionError)) the_url None default_timeout 1 (1 / 2) start
     = (Inl (TransportError ConnectionError), \<lparr>heap = [], trace = [get_url, Print ConnectionError]\<rparr>)
   \<and> fetcher (scripted [] (respond 503 not_found)) the_url None default_timeout 1 (1 / 2) start
     = (Inr not_found, \<lparr>heap = [], trace = [get_url]\<rparr>)"
  by (simp add: run_defs)

text \<open>
  C4, amended. In every run of \<open>fetcher\<close> the new events follow the old ones and hold at
  most \<open>tries\<close> GETs. When the GET number \<open>tries\<close> was made (\<open>pre\<close> are the events of the
  run before it, \<open>post\<close> those after it, with no GET among them) and the session raised
  the transport exception \<open>e\<close> for it, then \<open>fetcher\<close> raises \<open>e\<close> itself, and after that
  GET it only prints: it does not sleep and makes no other GET.
\<close>

theorem fetcher_final_transport_failure:
  assumes "fetcher net u p tmo tries b st = (r, st')"
  shows "trace st' = trace st @ new_events st st' \<and>
         gets (new_events st st') \<le> nat tries \<and>
         (\<forall>pre req post e.
            new_events st st' = pre @ Get req # post \<and> Suc (gets pre) = nat tries \<and>
            gets post = 0 \<and> net (trace st @ pre) req = TransportFailure e
            \<longrightarrow> r = Inl (TransportError e) \<and> post = [Print e])"
proof -
  obtain r0 where loop: "fetch_loop net u p tmo tries [1..tries] b None st = (r0, st')"
    using assms fetcher_state [of net u p tmo tries b st] by (cases "fetch_loop net u p tmo tries [1..tries] b None st") simp
  have q: "quiet (nat tries) st st'"
    using fetcher_quiet [of tries st net u p tmo b] assms by simp
  then obtain evs where evs: "trace st' = trace st @ evs" "gets evs \<le> nat tries"
    by (auto simp: quiet_iff)
  then have ne: "new_events st st' = evs" by (simp add: new_events_append)
  have final: "r = Inl (TransportError e) \<and> post = [Print e]"
    if h: "new_events st st' = pre @ Get req # post" "Suc (gets pre) = nat tries"
          "gets post = 0" "net (trace st @ pre) req = TransportFailure e"
    for pre req post e
  proof -
    from h(2) have pos: "1 \<le> tries" by simp
    have tr: "trace st' = trace st @ pre @ Get req # post" using evs ne h(1) by simp
    have len: "Suc (gets pre) = length [1..tries]" using h(2) by simp
    from fetch_loop_final [OF loop tr len h(3) h(4)] upto_last [OF pos]
    have "r0 = Inl (TransportError e) \<and> post = [Print e]" by simp
    with assms loop show ?thesis by (simp add: fetcher_def)
  qed
  show ?thesis using evs ne final by simp
qed

theorem fetcher_final_transport_failure_witness:
  "fetcher (scripted [respond 503 not_found] (TransportFailure Timeout))
      the_url None default_timeout 2 (1 / 2) start
     = (Inl (TransportError Timeout), \<lparr>heap = [], trace = [get_url, get_url, Print Timeout]\<rparr>)
   \<and> new_events start \<lparr>heap = [], trace = [get_url, get_url, Print Timeout]\<rparr>
       = [get_url] @ get_url # [Print Timeout]
   \<and> Suc (gets [get_url]) = nat 2 \<and> gets [Print Timeout] = 0
   \<and> scripted [respond 503 not_found] (TransportFailure Timeout) (trace start @ [get_url])
        \<lparr>url = the_url, params = None, timeout = default_timeout\<rparr> = TransportFailure Timeout
   \<and> gets (new_events start \<lparr>heap = [], trace = [get_url, get_url, Print Timeout]\<rparr>) \<le> nat 2"
proof -
  have run: "fetcher (scripted [respond 503 not_found] (TransportFailure Timeout))
      the_url None default_timeout 2 (1 / 2) start
     = (Inl (TransportError Timeout), \<lparr>heap = [], trace = [get_url, get_url, Print Timeout]\<rparr>)"
    by (simp add: run_defs)
  have split: "new_events start \<lparr>heap = [], trace = [get_url, get_url, Print Timeout]\<rparr>
       = [get_url] @ get_url # [Print Timeout]"
    by (simp add: new_events_def start_def)
  have hyps: "Suc (gets [get_url]) = nat 2" "gets [Print Timeout] = 0"
    "scripted [respond 503 not_found] (TransportFailure Timeout) (trace start @ [get_url])
        \<lparr>url = the_url, params = None, timeout = default_timeout\<rparr> = TransportFailure Timeout"
    by (simp_all add: run_defs)
  from fetcher_final_transport_failure [OF run] run split hyps show ?thesis by simp
qed

text \<open>
  C5. The handler of a transport exception should not look at a response of an earlier
  attempt. It does: after the sleep it reads \<open>response.status_code\<close>. When the first
  attempt raised, \<open>response\<close> is unbound and \<open>fetcher\<close> ends with \<open>UnboundLocalError\<close>
  in place of a second attempt. When the first attempt got a 404 and the second a
  timeout, the timeout is answered with the HTTP error of the first response; had the
  first response been a 200, the same timeout would have led to a third attempt.
\<close>

theorem fetcher_handler_reads_earlier_response:
  "fetcher (scripted [TransportFailure Timeout] (respond 200 page_one))
      the_url None default_timeout 3 (1 / 2) start
     = (Inl UnboundLocalError, \<lparr>heap = [], trace = [get_url, Print Timeout, Sleep (1 / 2)]\<rparr>)
   \<and> fetcher (scripted [respond 404 not_found, TransportFailure Timeout] (respond 200 page_one))
      the_url None default_timeout 3 (1 / 2) start
     = (Inl (HTTPError 404),
        \<lparr>heap = [], trace = [get_url, get_url, Print Timeout, Sleep (1 / 2)]\<rparr>)
   \<and> fetcher (scripted [respond 200 page_one, TransportFailure Timeout] (respond 200 page_one))
      the_url None default_timeout 3 (1 / 2) start
     = (Inr page_one,
        \<lparr>heap = [], trace = [get_url, get_url, Print Timeout, Sleep (1 / 2), get_url]\<rparr>)"
  by (simp add: run_defs)

section \<open>Lemmas on fetch_page and iter_pages\<close>

lemma fetch_page_frame:
  assumes "fetch_page net urljoin base_url path page_number base_params st = (r, st')"
  shows "heap st' = heap st @ [page_params st base_params page_number] \<and>
         (\<exists>evs. trace st' = trace st @ evs \<and> gets evs \<le> 3 \<and> yields evs = 0)"
proof -
  define u where "u = PStr (urljoin (rstrip CHR ''/'' base_url @ ''/'') (lstrip CHR ''/'' path))"
  define st2 where
    "st2 = st\<lparr>heap := heap st @ [page_params st base_params page_number]\<rparr>"
  define f where
    "f = fetcher net u (Some (length (heap st))) default_timeout default_tries default_backoff st2"
  have "quiet (nat default_tries) st2 (snd f)"
    unfolding f_def by (rule fetcher_quiet)
  then have q: "heap (snd f) = heap st2"
      "\<exists>evs. trace (snd f) = trace st2 @ evs \<and> gets evs \<le> 3 \<and> yields evs = 0"
    by (auto simp: quiet_iff default_tries_def)
  have "fetch_page net urljoin base_url path page_number base_params st
          = (case f of
               (Inl x, st3) \<Rightarrow> (Inl x, st3)
             | (Inr data, st3) \<Rightarrow>
                 (case read_page data of Inl x \<Rightarrow> (Inl x, st3) | Inr page \<Rightarrow> (Inr page, st3)))"
    by (simp add: fetch_page_def alloc_def Let_def f_def st2_def u_def page_params_def)
  with assms have "st' = snd f"
    by (auto split: prod.splits sum.splits)
  with q show ?thesis by (simp add: st2_def)
qed

lemma iter_loop_capped:
  assumes "pages_fetched < N" and "nat (N - pages_fetched) = k"
  shows "\<exists>r st'. iter_loop net items next_url pages_fetched (Some N) st = Some (r, st') \<and>
           heap st' = heap st \<and>
           (\<exists>evs. trace st' = trace st @ evs \<and> yields evs \<le> k \<and>
                  (yields evs = k \<longrightarrow> r = Inr () \<and> evs \<noteq> [] \<and> is_Yield (last evs)))"
  using assms
proof (induction k arbitrary: items next_url pages_fetched st)
  case 0
  then show ?case by simp
next
  case (Suc k)
  define st1 where "st1 = st\<lparr>trace := trace st @ [Yield items]\<rparr>"
  show ?case
  proof (cases "truthy items")
    case False
    then have "iter_loop net items next_url pages_fetched (Some N) st = Some (Inr (), st)"
      by (subst iter_loop.simps) simp
    then show ?thesis by (simp add: yields_def)
  next
    case True
    show ?thesis
    proof (cases "N \<le> pages_fetched + 1")
      case cap: True
      with True have "iter_loop net items next_url pages_fetched (Some N) st = Some (Inr (), st1)"
        by (subst iter_loop.simps) (simp add: st1_def)
      moreover have "trace st1 = trace st @ [Yield items]" "heap st1 = heap st"
        by (simp_all add: st1_def)
      moreover have "yields [Yield items] = 1" by (simp add: yields_def)
      ultimately show ?thesis by auto
    next
      case more: False
      then have k: "0 < k" "pages_fetched + 1 < N" "nat (N - (pages_fetched + 1)) = k"
        using Suc.prems by auto
      have y1: "yields [Yield items] = 1" by (simp add: yields_def)
      show ?thesis
      proof (cases "next_url = PNone")
        case nonext: True
        with True more
        have "iter_loop net items next_url pages_fetched (Some N) st = Some (Inr (), st1)"
          by (subst iter_loop.simps) (simp add: st1_def)
        moreover have "trace st1 = trace st @ [Yield items]" "heap st1 = heap st"
          by (simp_all add: st1_def)
        ultimately show ?thesis using y1 k(1) by auto
      next
        case False
        define f where
          "f = fetcher net next_url None default_timeout default_tries default_backoff st1"
        have "quiet (nat default_tries) st1 (snd f)"
          unfolding f_def by (rule fetcher_quiet)
        then obtain fevs where q: "heap (snd f) = heap st"
          "trace (snd f) = trace st @ Yield items # fevs" "yields fevs = 0"
          by (auto simp: quiet_iff st1_def)
        have unfold: "iter_loop net items next_url pages_fetched (Some N) st
            = (case f of
                 (Inl x, st2) \<Rightarrow> Some (Inl x, st2)
               | (Inr data, st2) \<Rightarrow>
                   (case read_page data of
                      Inl x \<Rightarrow> Some (Inl x, st2)
                    | Inr (items1, next_url1) \<Rightarrow>
                        iter_loop net items1 next_url1 (pages_fetched + 1) (Some N) st2))"
          using True more False
          by (subst iter_loop.simps) (simp add: st1_def f_def Let_def)
        have short: "yields (Yield items # fevs) \<le> Suc k \<and> yields (Yield items # fevs) \<noteq> Suc k"
          using q(3) k(1) by (simp add: yields_def)
        obtain rf st2 where f: "f = (rf, st2)" by force
        with q have q2: "heap st2 = heap st" "trace st2 = trace st @ Yield items # fevs" by simp_all
        show ?thesis
        proof (cases rf)
          case (Inl x)
          with unfold f have "iter_loop net items next_url pages_fetched (Some N) st = Some (Inl x, st2)"
            by simp
          with q2 short show ?thesis by auto
        next
          case (Inr data)
          show ?thesis
          proof (cases "read_page data")
            case (Inl x)
            with unfold f Inr
            have "iter_loop net items next_url pages_fetched (Some N) st = Some (Inl x, st2)"
              by simp
            with q2 short show ?thesis by auto
          next
            case page: (Inr pg)
            obtain items1 next_url1 where pg: "pg = (items1, next_url1)" by force
            from Suc.IH [OF k(2) k(3), of items1 next_url1 st2]
            obtain r st' evs where ih:
              "iter_loop net items1 next_url1 (pages_fetched + 1) (Some N) st2 = Some (r, st')"
              "heap st' = heap st2" "trace st' = trace st2 @ evs" "yields evs \<le> k"
              "yields evs = k \<longrightarrow> r = Inr () \<and> evs \<noteq> [] \<and> is_Yield (last evs)"
              by blast
            from unfold f Inr page pg ih(1)
            have run: "iter_loop net items next_url pages_fetched (Some N) st = Some (r, st')"
              by simp
            have tr: "trace st' = trace st @ (Yield items # fevs @ evs)"
              using ih(3) q2(2) by simp
            have ys: "yields (Yield items # fevs @ evs) = Suc (yields evs)"
              using q(3) by (simp add: yields_def)
            have "yields (Yield items # fevs @ evs) = Suc k \<longrightarrow>
                    r = Inr () \<and> Yield items # fevs @ evs \<noteq> [] \<and>
                    is_Yield (last (Yield items # fevs @ evs))"
              using ih(5) ys by auto
            with run tr ys ih(2,4) q2(1) show ?thesis
              by (intro exI [of _ r] exI [of _ st'] conjI exI [of _ "Yield items # fevs @ evs"]) simp_all
          qed
        qed
      qed
    qed
  qed
qed

lemma iter_pages_capped:
  assumes "1 \<le> N"
  shows "\<exists>r st'. iter_pages net urljoin base_url path base_params start_page (Some N) st
            = Some (r, st') \<and>
           (\<exists>evs. trace st' = trace st @ evs \<and> yields evs \<le> nat N \<and>
                  (yields evs = nat N \<longrightarrow> r = Inr () \<and> evs \<noteq> [] \<and> is_Yield (last evs)))"
proof -
  obtain r1 st1 where fp: "fetch_page net urljoin base_url path start_page base_params st = (r1, st1)"
    by force
  from fetch_page_frame [OF fp] obtain evs0 where
    e0: "trace st1 = trace st @ evs0" "yields evs0 = 0" by auto
  show ?thesis
  proof (cases r1)
    case (Inl x)
    with fp have "iter_pages net urljoin base_url path base_params start_page (Some N) st
        = Some (Inl x, st1)"
      by (simp add: iter_pages_def)
    with e0 assms show ?thesis by auto
  next
    case (Inr pg)
    obtain items next_url where pg: "pg = (items, next_url)" by force
    from assms have "(0::int) < N" "nat (N - 0) = nat N" by simp_all
    from iter_loop_capped [OF this, of net items next_url st1]
    obtain r st' evs where run: "iter_loop net items next_url 0 (Some N) st1 = Some (r, st')"
      "trace st' = trace st1 @ evs" "yields evs \<le> nat N"
      "yields evs = nat N \<longrightarrow> r = Inr () \<and> evs \<noteq> [] \<and> is_Yield (last evs)"
      by blast
    from fp Inr pg run(1)
    have "iter_pages net urljoin base_url path base_params start_page (Some N) st = Some (r, st')"
      by (simp add: iter_pages_def)
    moreover have "trace st' = trace st @ (evs0 @ evs)" using run(2) e0(1) by simp
    moreover have "yields (evs0 @ evs) = yields evs" using e0(2) by (simp add: yields_append)
    moreover have "evs \<noteq> [] \<longrightarrow> last (evs0 @ evs) = last evs \<and> evs0 @ evs \<noteq> []" by simp
    ultimately show ?thesis using run(3,4)
      by (intro exI [of _ r] exI [of _ st'] conjI exI [of _ "evs0 @ evs"]) auto
  qed
qed

section \<open>The claims on fetch_page and iter_pages\<close>

lemmas page_defs = fetch_page_def alloc_def read_page_def raise_str_def rstrip_def lstrip_def
  join_def base_def location_def page_one_def page_empty_def not_found_def next_url_2_def
  the_url_def default_timeout_def get_page_def get_next_def

lemma fetcher_always:
  "fetcher (scripted [] (respond code d)) u p tmo 3 b st
     = (Inr d, st\<lparr>trace := trace st @
          [Get \<lparr>url = u, params = map_option (\<lambda>a. heap st ! a) p, timeout = tmo\<rparr>,
           Get \<lparr>url = u, params = map_option (\<lambda>a. heap st ! a) p, timeout = tmo\<rparr>,
           Get \<lparr>url = u, params = map_option (\<lambda>a. heap st ! a) p, timeout = tmo\<rparr>]\<rparr>)"
  by (simp add: run_defs)

lemma fetch_page_always:
  "fetch_page (scripted [] (respond code d)) join base location n None start
     = (case read_page d of Inl x \<Rightarrow> Inl x | Inr pg \<Rightarrow> Inr pg,
        \<lparr>heap = [[(''page'', PNum (of_int n))]], trace = [get_page n, get_page n, get_page n]\<rparr>)"
  by (simp add: fetch_page_def alloc_def Let_def default_tries_def fetcher_always start_def
      rstrip_def lstrip_def join_def base_def location_def the_url_def get_page_def
      split: sum.splits)

text \<open>
  C6. A page without the key \<open>info\<close> or \<open>results\<close> should fail with an error of its
  own. Both places execute \<open>raise "Missing expected keys in response"\<close>, the raise of a
  string, which Python turns into a \<open>TypeError\<close> without the text. That is the error that
  a page with both keys and \<open>info\<close> null gives as well, so the missing keys have no
  distinct error: in \<open>fetch_page\<close> for the first page, and in \<open>iter_pages\<close> for a second
  page (the first page takes the three GETs of the first call of \<open>fetcher\<close>).
\<close>

theorem missing_keys_raise_TypeError:
  "fst (fetch_page (scripted [] (respond 200 not_found)) join base location 1 None start)
     = Inl TypeError
   \<and> fst (fetch_page (scripted [] (respond 200 (PDict [(''info'', PNone), (''results'', PList [])])))
            join base location 1 None start)
     = Inl TypeError
   \<and> map_option fst
        (iter_pages (scripted [respond 200 page_one, respond 200 page_one, respond 200 page_one]
                       (respond 200 not_found))
           join base location None 1 None start)
     = Some (Inl TypeError)"
proof -
  have a: "fst (fetch_page (scripted [] (respond 200 not_found)) join base location 1 None start)
     = Inl TypeError"
    by (simp add: fetch_page_always read_page_def raise_str_def not_found_def)
  have b: "fst (fetch_page (scripted [] (respond 200 (PDict [(''info'', PNone), (''results'', PList [])])))
            join base location 1 None start) = Inl TypeError"
    by (simp add: fetch_page_always read_page_def raise_str_def)
  have c: "map_option fst
        (iter_pages (scripted [respond 200 page_one, respond 200 page_one, respond 200 page_one]
                       (respond 200 not_found))
           join base location None 1 None start) = Some (Inl TypeError)"
    by (simp add: iter_pages_def iter_loop.simps run_defs page_defs)
  from a b c show ?thesis by simp
qed

text \<open>
  C7. When the first page that \<open>fetch_page\<close> returns has the empty list as its items,
  \<open>iter_pages\<close> ends normally in the state that \<open>fetch_page\<close> left: it yields no batch
  and makes no GET after those of that first fetch.
\<close>

theorem iter_pages_empty_first_page:
  assumes "fetch_page net urljoin base_url path start_page base_params st
             = (Inr (PList [], next_url), st1)"
  shows "iter_pages net urljoin base_url path base_params start_page max_pages st
           = Some (Inr (), st1)
         \<and> trace st1 = trace st @ new_events st st1 \<and> yields (new_events st st1) = 0"
proof -
  have "iter_loop net (PList []) next_url 0 max_pages st1 = Some (Inr (), st1)"
    by (subst iter_loop.simps) simp
  with assms have "iter_pages net urljoin base_url path base_params start_page max_pages st
           = Some (Inr (), st1)"
    by (simp add: iter_pages_def)
  moreover from fetch_page_frame [OF assms] obtain evs where
    "trace st1 = trace st @ evs" "yields evs = 0" by auto
  ultimately show ?thesis by (simp add: new_events_append)
qed

theorem iter_pages_empty_first_page_witness:
  "fetch_page (scripted [] (respond 200 page_empty)) join base location 1 None start
     = (Inr (PList [], next_url_2),
        \<lparr>heap = [[(''page'', PNum 1)]], trace = [get_page 1, get_page 1, get_page 1]\<rparr>)
   \<and> iter_pages (scripted [] (respond 200 page_empty)) join base location None 1 None start
     = Some (Inr (), \<lparr>heap = [[(''page'', PNum 1)]], trace = [get_page 1, get_page 1, get_page 1]\<rparr>)
   \<and> yields [get_page 1, get_page 1, get_page 1] = 0"
proof -
  have fp: "fetch_page (scripted [] (respond 200 page_empty)) join base location 1 None start
     = (Inr (PList [], next_url_2),
        \<lparr>heap = [[(''page'', PNum 1)]], trace = [get_page 1, get_page 1, get_page 1]\<rparr>)"
    by (simp add: fetch_page_always read_page_def page_empty_def next_url_2_def)
  have "new_events start \<lparr>heap = [[(''page'', PNum 1)]], trace = [get_page 1, get_page 1, get_page 1]\<rparr>
          = [get_page 1, get_page 1, get_page 1]"
    by (simp add: new_events_def start_def)
  with iter_pages_empty_first_page [OF fp, of None] fp show ?thesis by simp
qed



lemma read_page_one: "read_page page_one = Inr (PList [PStr ''a'', PStr ''b''], next_url_2)"
  by (simp add: read_page_def page_one_def next_url_2_def)

lemma iter_loop_endless:
  assumes "iter_loop net items next_url pages_fetched max_pages st = Some y"
  shows "\<not> (net = scripted [] (respond 200 page_one) \<and> truthy items \<and> next_url \<noteq> PNone \<and>
            max_pages = None)"
proof (rule iter_loop.raw_induct
    [where P = "\<lambda>net items next_url pages_fetched max_pages st y.
        \<not> (net = scripted [] (respond 200 page_one) \<and> truthy items \<and> next_url \<noteq> PNone \<and>
           max_pages = None)", OF _ assms])
  fix f :: "net \<Rightarrow> pyval \<Rightarrow> pyval \<Rightarrow> int \<Rightarrow> int option \<Rightarrow> state \<Rightarrow> ((error + unit) \<times> state) option"
  fix net items next_url pages_fetched max_pages st y
  assume ih: "\<And>net items next_url pages_fetched max_pages st y.
      f net items next_url pages_fetched max_pages st = Some y \<Longrightarrow>
      \<not> (net = scripted [] (respond 200 page_one) \<and> truthy items \<and> next_url \<noteq> PNone \<and>
         max_pages = None)"
  assume body: "(if \<not> truthy items then Some (Inr (), st)
      else
        (let st1 = st\<lparr>trace := trace st @ [Yield items]\<rparr>;
             pages_fetched1 = pages_fetched + 1
         in if (case max_pages of None \<Rightarrow> False | Some m \<Rightarrow> pages_fetched1 \<ge> m)
            then Some (Inr (), st1)
            else if next_url = PNone then Some (Inr (), st1)
            else
              (case fetcher net next_url None default_timeout default_tries default_backoff st1 of
                 (Inl x, st2) \<Rightarrow> Some (Inl x, st2)
               | (Inr data, st2) \<Rightarrow>
                   (case read_page data of
                      Inl x \<Rightarrow> Some (Inl x, st2)
                    | Inr (items1, next_url1) \<Rightarrow>
                        f net items1 next_url1 pages_fetched1 max_pages st2)))) = Some y"
  show "\<not> (net = scripted [] (respond 200 page_one) \<and> truthy items \<and> next_url \<noteq> PNone \<and>
           max_pages = None)"
  proof
    assume inv: "net = scripted [] (respond 200 page_one) \<and> truthy items \<and> next_url \<noteq> PNone \<and>
           max_pages = None"
    with body obtain st2 where
      "f net (PList [PStr ''a'', PStr ''b'']) next_url_2 (pages_fetched + 1) max_pages st2 = Some y"
      by (simp add: Let_def default_tries_def fetcher_always read_page_one)
    from ih [OF this] inv show False by (simp add: next_url_2_def)
  qed
qed

text \<open>
  C9, as the specification states it, fails: a caller that leaves \<open>max_pages\<close> out gets
  \<open>None\<close>, which is no cap. Against a server whose every page has items and a next
  reference, the iteration never ends.
\<close>

theorem iter_pages_without_max_pages_never_ends:
  "iter_pages (scripted [] (respond 200 page_one)) join base location None 1 None start = None"
proof -
  have "iter_loop (scripted [] (respond 200 page_one)) (PList [PStr ''a'', PStr ''b''])
          next_url_2 0 None st = None" for st
    using iter_loop_endless
      [of "scripted [] (respond 200 page_one)" "PList [PStr ''a'', PStr ''b'']" next_url_2 0 None st]
    by (cases "iter_loop (scripted [] (respond 200 page_one)) (PList [PStr ''a'', PStr ''b''])
          next_url_2 0 None st") (simp_all add: next_url_2_def)
  then show ?thesis
    by (simp add: iter_pages_def fetch_page_always read_page_one)
qed

text \<open>
  C9, amended. The finite default is that of the command line: \<open>parse_cli\<close> gives
  \<open>--max-pages\<close> the default 10 and \<open>main\<close> passes it on. Every iteration that \<open>main\<close>
  starts for \<open>--all\<close> with no \<open>--max-pages\<close>, whatever the other options (the starting
  page among them) and whatever the server answers, ends and yields at most 10 batches.
\<close>

theorem main_pages_default_cap:
  assumes "arg_max_pages a = arg_max_pages (parse_cli_all b p)"
  shows "\<exists>r st'. main_pages net urljoin a st = Some (r, st') \<and>
     trace st' = trace st @ new_events st st' \<and> yields (new_events st st') \<le> 10"
proof -
  from assms have cap: "arg_max_pages a = 10" by (simp add: parse_cli_all_def)
  have "(1::int) \<le> 10" by simp
  from iter_pages_capped
    [OF this, of net urljoin "arg_base_url a" "arg_path a" None "arg_page a" st]
  obtain r st' evs where
    "iter_pages net urljoin (arg_base_url a) (arg_path a) None (arg_page a) (Some 10) st
       = Some (r, st')"
    "trace st' = trace st @ evs" "yields evs \<le> nat 10"
    by blast
  with cap show ?thesis
    by (intro exI [of _ r] exI [of _ st'])
       (simp add: main_pages_def new_events_append)
qed

theorem main_pages_default_cap_witness:
  "arg_max_pages ((parse_cli_all base location)\<lparr>arg_page := 3\<rparr>)
     = arg_max_pages (parse_cli_all base location)
   \<and> arg_page ((parse_cli_all base location)\<lparr>arg_page := 3\<rparr>) = 3
   \<and> (\<exists>r st'. main_pages (scripted [] (respond 200 page_one)) join
                 ((parse_cli_all base location)\<lparr>arg_page := 3\<rparr>) start = Some (r, st') \<and>
        trace st' = trace start @ new_events start st' \<and> yields (new_events start st') \<le> 10)"
proof -
  have h: "arg_max_pages ((parse_cli_all base location)\<lparr>arg_page := 3\<rparr>)
     = arg_max_pages (parse_cli_all base location)"
    by simp
  have pg: "arg_page ((parse_cli_all base location)\<lparr>arg_page := 3\<rparr>) = 3"
    by simp
  from main_pages_default_cap
    [OF h, of "scripted [] (respond 200 page_one)" join start] h pg
  show ?thesis by simp
qed

text \<open>
  C10. \<open>fetch_page\<close> leaves every dictionary that existed before the call as it was, the
  one that \<open>base_params\<close> refers to among them: whether it returns or raises, the only
  change to the heap is one new dictionary, which holds the entries of \<open>base_params\<close> with
  the key \<open>page\<close> set to the page number.
\<close>

theorem fetch_page_keeps_base_params:
  assumes "fetch_page net urljoin base_url path page_number base_params st = (r, st')"
  shows "heap st' = heap st @ [page_params st base_params page_number] \<and>
         (\<forall>a < length (heap st). heap st' ! a = heap st ! a) \<and>
         map_of (page_params st base_params page_number) ''page'' = Some (PNum (of_int page_number)) \<and>
         (\<forall>k. k \<noteq> ''page'' \<longrightarrow>
            map_of (page_params st base_params page_number) k
              = map_of (case base_params of None \<Rightarrow> [] | Some a \<Rightarrow> heap st ! a) k)"
proof -
  from fetch_page_frame [OF assms]
  have h: "heap st' = heap st @ [page_params st base_params page_number]" by simp
  then have "\<forall>a < length (heap st). heap st' ! a = heap st ! a"
    by (simp add: nth_append)
  with h show ?thesis
    by (simp add: page_params_def update_conv')
qed

theorem fetch_page_keeps_base_params_witness:
  "fetch_page (scripted [] (respond 200 page_one)) join base location 2 (Some 0)
      \<lparr>heap = [rick], trace = []\<rparr>
     = (Inr (PList [PStr ''a'', PStr ''b''], next_url_2),
        \<lparr>heap = [rick, [(''name'', PStr ''rick''), (''page'', PNum 2)]],
         trace = [Get \<lparr>url = the_url, params = Some [(''name'', PStr ''rick''), (''page'', PNum 2)],
                       timeout = default_timeout\<rparr>,
                  Get \<lparr>url = the_url, params = Some [(''name'', PStr ''rick''), (''page'', PNum 2)],
                       timeout = default_timeout\<rparr>,
                  Get \<lparr>url = the_url, params = Some [(''name'', PStr ''rick''), (''page'', PNum 2)],
                       timeout = default_timeout\<rparr>]\<rparr>)
   \<and> (0::nat) < length [rick]
   \<and> [rick, [(''name'', PStr ''rick''), (''page'', PNum 2)]] ! 0 = rick
   \<and> map_of rick ''page'' = Some (PNum 7)
   \<and> ''name'' \<noteq> ''page''
   \<and> map_of [(''name'', PStr ''rick''), (''page'', PNum 2)] ''name'' = map_of rick ''name''"
proof -
  have run: "fetch_page (scripted [] (respond 200 page_one)) join base location 2 (Some 0)
      \<lparr>heap = [rick], trace = []\<rparr>
     = (Inr (PList [PStr ''a'', PStr ''b''], next_url_2),
        \<lparr>heap = [rick, [(''name'', PStr ''rick''), (''page'', PNum 2)]],
         trace = [Get \<lparr>url = the_url, params = Some [(''name'', PStr ''rick''), (''page'', PNum 2)],
                       timeout = default_timeout\<rparr>,
                  Get \<lparr>url = the_url, params = Some [(''name'', PStr ''rick''), (''page'', PNum 2)],
                       timeout = default_timeout\<rparr>,
                  Get \<lparr>url = the_url, params = Some [(''name'', PStr ''rick''), (''page'', PNum 2)],
                       timeout = default_timeout\<rparr>]\<rparr>)"
    by (simp add: fetch_page_def alloc_def Let_def default_tries_def fetcher_always read_page_one
        rstrip_def lstrip_def join_def base_def location_def the_url_def rick_def)
  from fetch_page_keeps_base_params [OF run] run show ?thesis
    by (simp add: rick_def)
qed

end
